theory Spec2Isabelle
  imports Main "HOL-Library.Sublist" "HOL-Library.Char_ord" "HOL-Library.List_Lexorder"
begin

section \<open>The registry verifier, \<^verbatim>\<open>.github/scripts/verify_authors.py\<close>\<close>

text \<open>
  The script loads \<^verbatim>\<open>authors.yaml\<close> and \<^verbatim>\<open>registry.yaml\<close>, checks every author's GitHub
  handle and declared URLs with HTTP HEAD requests, checks that every author named in the
  registry is defined, prints a report and sets the exit status.

  The embedding starts from the two parsed files. Strings are byte lists holding the
  UTF-8 encoding of the Python text: for an ASCII pattern the substring test gives the same
  answer on bytes and on code points, and the bytewise lexicographic order is the order of
  the code points, which is what \<^verbatim>\<open>'x.com' in url\<close> and \<^verbatim>\<open>sorted\<close> use.
\<close>

subsection \<open>Data\<close>

text \<open>
  The value stored under an author's handle: YAML \<^verbatim>\<open>null\<close> (an entry with no fields, which
  \<^verbatim>\<open>safe_load\<close> gives as \<^verbatim>\<open>None\<close>) or a mapping, of which the script reads the
  optional keys \<^verbatim>\<open>website\<close> and \<^verbatim>\<open>avatar\<close> (string values; \<open>None\<close> is an absent key).
\<close>

datatype author_details =
  Null
  | Details (website: "string option") (avatar: "string option")

text \<open>\<^verbatim>\<open>authors\<close> is a dict: an association list in insertion order, as Python iterates it.\<close>

type_synonym authors_file = "(string \<times> author_details) list"

text \<open>An entry of the registry: the optional key \<^verbatim>\<open>authors\<close>, a list of handles.\<close>

datatype registry_entry = RegistryEntry (entry_authors: "string list option")

type_synonym registry_file = "registry_entry list"

text \<open>
  What \<^verbatim>\<open>requests.head(..., allow_redirects=True)\<close> gives: a response with its final status
  code, or a raised \<^verbatim>\<open>requests.RequestException\<close> with its message \<^verbatim>\<open>str(e)\<close>.
  The network is a parameter: the outcome of a request may depend on its URL and on the
  number of requests issued before it.
\<close>

datatype http_result = Response int | RequestException string

type_synonym network = "nat \<Rightarrow> string \<Rightarrow> http_result"

text \<open>The effects of a run: the HEAD requests issued and the arguments of \<^verbatim>\<open>print\<close>, in order.\<close>

record world =
  requests :: "string list"
  stdout :: "string list"

text \<open>The three accumulators of \<^verbatim>\<open>main\<close> on top of the world.\<close>

record state = world +
  failed_handles :: "string list"
  failed_urls :: "string list"
  missing_authors :: "string list"

text \<open>The only exception a run raises on these inputs: \<^verbatim>\<open>'website' in None\<close>.\<close>

datatype error = TypeError

subsection \<open>Python's string formatting\<close>

definition digit_char :: "nat \<Rightarrow> char" where
  "digit_char d = ''0123456789'' ! d"

fun str_nat :: "nat \<Rightarrow> string" where
  "str_nat n = (if n < 10 then [digit_char n] else str_nat (n div 10) @ [digit_char (n mod 10)])"

declare str_nat.simps [simp del]

text \<open>\<^verbatim>\<open>str\<close> of a Python integer, as an f-string formats it.\<close>

definition str_int :: "int \<Rightarrow> string" where
  "str_int i = (if i < 0 then ''-'' @ str_nat (nat (- i)) else str_nat (nat i))"

text \<open>
  The number a string of decimal digits denotes, as \<^verbatim>\<open>int(s)\<close> reads it: the inverse
  of \<open>str_nat\<close>, used to check it.
\<close>

definition digit_value :: "char \<Rightarrow> nat" where
  "digit_value c = of_char c - 48"

definition parse_nat :: "string \<Rightarrow> nat" where
  "parse_nat s = foldl (\<lambda>acc c. 10 * acc + digit_value c) 0 s"

text \<open>An f-string field holding a string or \<^verbatim>\<open>None\<close>.\<close>

fun fmt :: "string option \<Rightarrow> string" where
  "fmt None = ''None''"
| "fmt (Some s) = s"

text \<open>Truth value of a string or \<^verbatim>\<open>None\<close> in a condition.\<close>

fun truthy :: "string option \<Rightarrow> bool" where
  "truthy None = False"
| "truthy (Some s) = (s \<noteq> [])"

text \<open>The marks of the console output, in UTF-8, and the line feed.\<close>

definition cross_mark :: string where
  "cross_mark = [CHR 0xE2, CHR 0x9D, CHR 0x8C]"

definition check_mark :: string where
  "check_mark = [CHR 0xE2, CHR 0x9C, CHR 0x93]"

definition skip_mark :: string where
  "skip_mark = [CHR 0xE2, CHR 0x8A, CHR 0x98]"

definition newline :: string where
  "newline = [CHR 0x0A]"

subsection \<open>Effects\<close>

definition print :: "string \<Rightarrow> 'a world_scheme \<Rightarrow> 'a world_scheme" where
  "print text w = w\<lparr>stdout := stdout w @ [text]\<rparr>"

definition requests_head :: "network \<Rightarrow> string \<Rightarrow> 'a world_scheme \<Rightarrow> http_result \<times> 'a world_scheme" where
  "requests_head net url w = (net (length (requests w)) url, w\<lparr>requests := requests w @ [url]\<rparr>)"

subsection \<open>The two checks\<close>

definition check_github_handle ::
  "network \<Rightarrow> string \<Rightarrow> 'a world_scheme \<Rightarrow> (bool \<times> string option) \<times> 'a world_scheme" where
  "check_github_handle net username w =
     (case requests_head net (''https://github.com/'' @ username) w of
        (Response status_code, w') \<Rightarrow>
          if status_code = 404 then ((False, Some ''GitHub profile not found''), w')
          else if status_code \<ge> 400 then ((False, Some (''HTTP '' @ str_int status_code)), w')
          else ((True, None), w')
      | (RequestException e, w') \<Rightarrow> ((False, Some e), w'))"

definition check_url ::
  "network \<Rightarrow> string \<Rightarrow> 'a world_scheme \<Rightarrow> (bool \<times> string option) \<times> 'a world_scheme" where
  "check_url net url w =
     (if sublist ''x.com'' url then ((True, Some ''skipped (x.com)''), w)
      else
        (case requests_head net url w of
           (Response status_code, w') \<Rightarrow>
             if status_code \<ge> 400 then ((False, Some (''HTTP '' @ str_int status_code)), w')
             else ((True, None), w')
         | (RequestException e, w') \<Rightarrow> ((False, Some e), w')))"

subsection \<open>Step 1: GitHub handles\<close>

definition verify_handle :: "network \<Rightarrow> string \<Rightarrow> state \<Rightarrow> state" where
  "verify_handle net username s =
     (let s1 = print (''Checking GitHub handle: '' @ username @ ''...'') s;
          ((success, error), s2) = check_github_handle net username s1
      in if \<not> success
         then print (''  '' @ cross_mark @ '' '' @ fmt error)
                (s2\<lparr>failed_handles := failed_handles s2 @ [username @ '' ('' @ fmt error @ '')'']\<rparr>)
         else print (''  '' @ check_mark @ '' OK'') s2)"

fun verify_handles :: "network \<Rightarrow> authors_file \<Rightarrow> state \<Rightarrow> state" where
  "verify_handles net [] s = s"
| "verify_handles net ((username, details) # rest) s =
     verify_handles net rest (verify_handle net username s)"

subsection \<open>Step 2: website and avatar URLs\<close>

definition verify_website :: "network \<Rightarrow> string \<Rightarrow> string \<Rightarrow> state \<Rightarrow> state" where
  "verify_website net username url s =
     (let ((success, error), s1) = check_url net url s
      in if \<not> success
         then print (''  '' @ cross_mark @ '' Website URL: '' @ url @ '' ('' @ fmt error @ '')'')
                (s1\<lparr>failed_urls :=
                   failed_urls s1 @ [username @ ''.website: '' @ url @ '' ('' @ fmt error @ '')'']\<rparr>)
         else if truthy error
         then print (''  '' @ skip_mark @ '' Website URL '' @ fmt error @ '': '' @ url) s1
         else print (''  '' @ check_mark @ '' Website URL OK: '' @ url) s1)"

definition verify_avatar :: "network \<Rightarrow> string \<Rightarrow> string \<Rightarrow> state \<Rightarrow> state" where
  "verify_avatar net username url s =
     (let ((success, error), s1) = check_url net url s
      in if \<not> success
         then print (''  '' @ cross_mark @ '' Avatar URL: '' @ url @ '' ('' @ fmt error @ '')'')
                (s1\<lparr>failed_urls :=
                   failed_urls s1 @ [username @ ''.avatar: '' @ url @ '' ('' @ fmt error @ '')'']\<rparr>)
         else if truthy error
         then print (''  '' @ skip_mark @ '' Avatar URL '' @ fmt error @ '': '' @ url) s1
         else print (''  '' @ check_mark @ '' Avatar URL OK: '' @ url) s1)"

text \<open>
  The body of the loop for one author. On \<^verbatim>\<open>None\<close> the test \<^verbatim>\<open>'website' in details\<close>
  raises, after the line for the author is printed.
\<close>

definition verify_author_urls ::
  "network \<Rightarrow> string \<Rightarrow> author_details \<Rightarrow> state \<Rightarrow> error \<times> state + state" where
  "verify_author_urls net username details s =
     (let s1 = print (''Checking URLs for '' @ username @ ''...'') s
      in case details of
           Null \<Rightarrow> Inl (TypeError, s1)
         | Details w a \<Rightarrow>
             (let s2 = (case w of None \<Rightarrow> s1 | Some url \<Rightarrow> verify_website net username url s1);
                  s3 = (case a of None \<Rightarrow> s2 | Some url \<Rightarrow> verify_avatar net username url s2)
              in Inr s3))"

fun verify_urls :: "network \<Rightarrow> authors_file \<Rightarrow> state \<Rightarrow> error \<times> state + state" where
  "verify_urls net [] s = Inr s"
| "verify_urls net ((username, details) # rest) s =
     (case verify_author_urls net username details s of
        Inl e \<Rightarrow> Inl e
      | Inr s' \<Rightarrow> verify_urls net rest s')"

subsection \<open>Step 3: registry authors\<close>

fun collect_registry_authors :: "registry_file \<Rightarrow> string set \<Rightarrow> string set" where
  "collect_registry_authors [] registry_authors = registry_authors"
| "collect_registry_authors (entry # rest) registry_authors =
     collect_registry_authors rest
       (case entry_authors entry of
          None \<Rightarrow> registry_authors
        | Some as \<Rightarrow> fold insert as registry_authors)"

definition verify_registry_author :: "authors_file \<Rightarrow> string \<Rightarrow> state \<Rightarrow> state" where
  "verify_registry_author authors author s =
     (if author \<notin> set (map fst authors)
      then print (''  '' @ cross_mark @ '' Author '' @ [CHR 0x27] @ author @ [CHR 0x27]
                    @ '' not found in authors.yaml'')
             (s\<lparr>missing_authors := missing_authors s @ [author]\<rparr>)
      else print (''  '' @ check_mark @ '' '' @ author) s)"

definition verify_registry_authors :: "authors_file \<Rightarrow> registry_file \<Rightarrow> state \<Rightarrow> state" where
  "verify_registry_authors authors registry s =
     (let registry_authors = collect_registry_authors registry {};
          s1 = print (''Found '' @ str_nat (card registry_authors)
                        @ '' unique authors in registry.yaml'') s
      in fold (verify_registry_author authors) (sorted_list_of_set registry_authors) s1)"

subsection \<open>The report and the exit status\<close>

definition print_items :: "string list \<Rightarrow> state \<Rightarrow> state" where
  "print_items items s = fold (\<lambda>item. print (''  - '' @ item)) items s"

definition report_results :: "state \<Rightarrow> int \<times> state" where
  "report_results s =
     (let has_failures = False;
          (has_failures, s1) =
            (if failed_handles s \<noteq> []
             then (True,
                   print_items (failed_handles s)
                     (print (newline @ cross_mark
                               @ '' The following GitHub handles failed verification:'') s))
             else (has_failures, s));
          (has_failures, s2) =
            (if failed_urls s1 \<noteq> []
             then (True,
                   print_items (failed_urls s1)
                     (print (newline @ cross_mark
                               @ '' The following URLs failed verification:'') s1))
             else (has_failures, s1));
          (has_failures, s3) =
            (if missing_authors s2 \<noteq> []
             then (True,
                   print_items (missing_authors s2)
                     (print (newline @ cross_mark
                               @ '' The following authors are in registry.yaml but not in authors.yaml:'')
                        s2))
             else (has_failures, s2))
      in if has_failures then (1, s3)
         else (0, print (newline @ check_mark @ '' All verifications passed successfully!'') s3))"

subsection \<open>main\<close>

text \<open>
  The result is \<open>Inr\<close> of the exit status and the final state when the run reaches the
  report (\<^verbatim>\<open>sys.exit(1)\<close>, or the end of \<^verbatim>\<open>main\<close> for status 0), and \<open>Inl\<close> of the
  uncaught exception with the state at the raise.
\<close>

definition main ::
  "network \<Rightarrow> authors_file \<Rightarrow> registry_file \<Rightarrow> world \<Rightarrow> error \<times> state + int \<times> state" where
  "main net authors registry w =
     (let s0 = \<lparr>requests = requests w, stdout = stdout w,
                failed_handles = [], failed_urls = [], missing_authors = []\<rparr>;
          s1 = verify_handles net authors
                 (print (''=== Verifying GitHub Handles ==='' @ newline) s0)
      in case verify_urls net authors
                (print (newline @ ''=== Verifying Author URLs ==='' @ newline) s1) of
           Inl e \<Rightarrow> Inl e
         | Inr s2 \<Rightarrow>
             Inr (report_results
                    (verify_registry_authors authors registry
                       (print (newline @ ''=== Verifying Registry Authors ==='' @ newline) s2))))"

subsection \<open>Notions of the specification\<close>

text \<open>
  The handles referenced by the registry, in the words of the specification: all handles
  in the \<open>authors\<close> field of any entry. It is compared below with what the loop of
  step 3 collects.
\<close>

definition referenced_handles :: "registry_file \<Rightarrow> string set" where
  "referenced_handles registry =
     (\<Union>entry \<in> set registry. case entry_authors entry of None \<Rightarrow> {} | Some as \<Rightarrow> set as)"







text \<open>
  What a run started in the world \<open>w\<close> lets one observe: the exit status or the uncaught
  error, the three failure lists, the requests it issued and the lines it printed.
\<close>

definition observed ::
  "world \<Rightarrow> error \<times> state + int \<times> state
     \<Rightarrow> (error + int) \<times> string list \<times> string list \<times> string list \<times> string list \<times> string list" where
  "observed w r =
     (case r of
        Inl (e, s) \<Rightarrow>
          (Inl e, failed_handles s, failed_urls s, missing_authors s,
           drop (length (requests w)) (requests s), drop (length (stdout w)) (stdout s))
      | Inr (status, s) \<Rightarrow>
          (Inr status, failed_handles s, failed_urls s, missing_authors s,
           drop (length (requests w)) (requests s), drop (length (stdout w)) (stdout s)))"

text \<open>
  Two states reached by two runs, started in \<open>w1\<close> and \<open>w2\<close>, that have so far
  recorded the same failures, issued the same requests and printed the same lines.
\<close>

definition same_run :: "world \<Rightarrow> world \<Rightarrow> state \<Rightarrow> state \<Rightarrow> bool" where
  "same_run w1 w2 s1 s2 \<longleftrightarrow>
     failed_handles s1 = failed_handles s2 \<and> failed_urls s1 = failed_urls s2
     \<and> missing_authors s1 = missing_authors s2
     \<and> (\<exists>rq. requests s1 = requests w1 @ rq \<and> requests s2 = requests w2 @ rq)
     \<and> (\<exists>out. stdout s1 = stdout w1 @ out \<and> stdout s2 = stdout w2 @ out)"

section \<open>Properties\<close>

subsection \<open>Decimal numerals\<close>

text \<open>\<open>str_nat\<close> writes a number in decimal: reading the digits back gives the number.\<close>

lemma digit_value_digit_char:
  assumes "d < 10"
  shows "digit_value (digit_char d) = d"
proof -
  from assms have "d \<in> {0, 1, 2, 3, 4, 5, 6, 7, 8, 9}" by auto
  then show ?thesis
    by (auto simp add: digit_char_def digit_value_def)
qed

lemma parse_nat_snoc: "parse_nat (s @ [c]) = 10 * parse_nat s + digit_value c"
  by (simp add: parse_nat_def)

lemma parse_nat_str_nat: "parse_nat (str_nat n) = n"
proof (induction n rule: str_nat.induct)
  case (1 n)
  show ?case
  proof (cases "n < 10")
    case True
    then show ?thesis
      by (subst str_nat.simps) (simp add: parse_nat_def digit_value_digit_char)
  next
    case False
    with "1.IH" have "parse_nat (str_nat (n div 10)) = n div 10" by simp
    with False show ?thesis
      by (subst str_nat.simps) (simp add: parse_nat_snoc digit_value_digit_char)
  qed
qed

lemma str_nat_inj: "str_nat m = str_nat n \<Longrightarrow> m = n"
  by (metis parse_nat_str_nat)

subsection \<open>Fields of the state after each operation\<close>

lemma print_fields [simp]:
  "stdout (print t w) = stdout w @ [t]"
  "requests (print t w) = requests w"
  by (simp_all add: print_def)

lemma print_state_fields [simp]:
  "failed_handles (print t s) = failed_handles s"
  "failed_urls (print t s) = failed_urls s"
  "missing_authors (print t s) = missing_authors s"
  by (simp_all add: print_def)

lemma snd_check_github_handle:
  "snd (check_github_handle net u w) = w\<lparr>requests := requests w @ [''https://github.com/'' @ u]\<rparr>"
  by (simp add: check_github_handle_def requests_head_def split: http_result.split)

lemma snd_check_url:
  "snd (check_url net url w) =
     (if sublist ''x.com'' url then w else w\<lparr>requests := requests w @ [url]\<rparr>)"
  by (simp add: check_url_def requests_head_def split: http_result.split)

lemma check_github_handle_fields [simp]:
  "failed_handles (snd (check_github_handle net u s)) = failed_handles s"
  "failed_urls (snd (check_github_handle net u s)) = failed_urls s"
  "missing_authors (snd (check_github_handle net u s)) = missing_authors s"
  "stdout (snd (check_github_handle net u s)) = stdout s"
  "requests (snd (check_github_handle net u s)) = requests s @ [''https://github.com/'' @ u]"
  by (simp_all add: snd_check_github_handle)

lemma check_url_fields [simp]:
  "failed_handles (snd (check_url net url s)) = failed_handles s"
  "failed_urls (snd (check_url net url s)) = failed_urls s"
  "missing_authors (snd (check_url net url s)) = missing_authors s"
  "stdout (snd (check_url net url s)) = stdout s"
  "requests (snd (check_url net url s)) =
     (if sublist ''x.com'' url then requests s else requests s @ [url])"
  by (simp_all add: snd_check_url)

lemma verify_handle_fields [simp]:
  "failed_urls (verify_handle net u s) = failed_urls s"
  "missing_authors (verify_handle net u s) = missing_authors s"
  "requests (verify_handle net u s) = requests s @ [''https://github.com/'' @ u]"
  by (simp_all add: verify_handle_def Let_def split_beta)

lemma verify_handles_fields [simp]:
  "failed_urls (verify_handles net a s) = failed_urls s"
  "missing_authors (verify_handles net a s) = missing_authors s"
  "requests (verify_handles net a s) = requests s @ map (\<lambda>(u, d). ''https://github.com/'' @ u) a"
  by (induction net a s rule: verify_handles.induct; simp)+

lemma verify_website_fields [simp]:
  "failed_handles (verify_website net u url s) = failed_handles s"
  "missing_authors (verify_website net u url s) = missing_authors s"
  by (simp_all add: verify_website_def Let_def split_beta)

lemma verify_avatar_fields [simp]:
  "failed_handles (verify_avatar net u url s) = failed_handles s"
  "missing_authors (verify_avatar net u url s) = missing_authors s"
  by (simp_all add: verify_avatar_def Let_def split_beta)

lemma print_items_fields [simp]:
  "failed_handles (print_items xs s) = failed_handles s"
  "failed_urls (print_items xs s) = failed_urls s"
  "missing_authors (print_items xs s) = missing_authors s"
  "requests (print_items xs s) = requests s"
  "stdout (print_items xs s) = stdout s @ map (\<lambda>item. ''  - '' @ item) xs"
  unfolding print_items_def by (induction xs arbitrary: s; simp)+

lemma report_results_fields [simp]:
  "failed_handles (snd (report_results s)) = failed_handles s"
  "failed_urls (snd (report_results s)) = failed_urls s"
  "missing_authors (snd (report_results s)) = missing_authors s"
  "requests (snd (report_results s)) = requests s"
  by (simp_all add: report_results_def Let_def)

lemma fst_report_results:
  "fst (report_results s) =
     (if failed_handles s \<noteq> [] \<or> failed_urls s \<noteq> [] \<or> missing_authors s \<noteq> [] then 1 else 0)"
  by (simp add: report_results_def Let_def)

lemma report_results_success:
  "fst (report_results s) = 0 \<Longrightarrow>
     stdout (snd (report_results s)) =
       stdout s @ [newline @ check_mark @ '' All verifications passed successfully!'']"
  by (simp add: report_results_def Let_def split: if_splits)

lemma report_results_failure_last:
  "fst (report_results s) \<noteq> 0 \<Longrightarrow>
     \<exists>item. last (stdout (snd (report_results s))) = ''  - '' @ item"
  by (auto simp add: report_results_def Let_def last_map split: if_splits)

subsection \<open>The exit status\<close>

lemma main_Inr_report:
  assumes "main net authors registry w = Inr (status, s)"
  obtains s' where "report_results s' = (status, s)"
  using assms by (auto simp add: main_def Let_def split: sum.splits)

text \<open>
  C1. When the run reaches the report, the exit status is 0 or 1; it is 1 exactly when one
  of the three failure lists is not empty at the end of the run, and it is 0 exactly when
  the last thing printed is the success message.
\<close>

theorem main_exit_status:
  assumes "main net authors registry w = Inr (status, s)"
  shows "(status = 0 \<or> status = 1)
       \<and> (status = 1 \<longleftrightarrow> failed_handles s \<noteq> [] \<or> failed_urls s \<noteq> [] \<or> missing_authors s \<noteq> [])
       \<and> (status = 0 \<longleftrightarrow>
            last (stdout s) = newline @ check_mark @ '' All verifications passed successfully!'')"
proof -
  from assms obtain s' where r: "report_results s' = (status, s)"
    by (rule main_Inr_report)
  have st: "status = fst (report_results s')" and s: "s = snd (report_results s')"
    using r by simp_all
  have a: "status = 0 \<or> status = 1"
    by (simp add: st fst_report_results)
  have b: "status = 1 \<longleftrightarrow> failed_handles s \<noteq> [] \<or> failed_urls s \<noteq> [] \<or> missing_authors s \<noteq> []"
    by (simp add: st s fst_report_results)
  have c: "status = 0 \<longleftrightarrow>
        last (stdout s) = newline @ check_mark @ '' All verifications passed successfully!''"
  proof (cases "status = 0")
    case True
    then show ?thesis using report_results_success [of s'] by (simp add: st s)
  next
    case False
    then obtain item where "last (stdout s) = ''  - '' @ item"
      using report_results_failure_last [of s'] by (auto simp add: st s)
    then show ?thesis using False by (simp add: newline_def)
  qed
  from a b c show ?thesis by blast
qed

theorem main_exit_status_witness:
  "(\<exists>s. main (\<lambda>n u. Response 200)
           [(''alice'', Details (Some ''https://good.example'') None)]
           [RegistryEntry (Some [''alice''])]
           \<lparr>requests = [], stdout = []\<rparr> = Inr (0, s)
        \<and> failed_handles s = [] \<and> failed_urls s = [] \<and> missing_authors s = [])
   \<and> (\<exists>s. main (\<lambda>n u. Response 200)
           [(''alice'', Details None None)]
           [RegistryEntry (Some [''bob''])]
           \<lparr>requests = [], stdout = []\<rparr> = Inr (1, s)
        \<and> (failed_handles s \<noteq> [] \<or> failed_urls s \<noteq> [] \<or> missing_authors s \<noteq> []))"
proof -
  let ?A = "main (\<lambda>n u. Response 200)
           [(''alice'', Details (Some ''https://good.example'') None)]
           [RegistryEntry (Some [''alice''])]
           \<lparr>requests = [], stdout = []\<rparr>"
  let ?B = "main (\<lambda>n u. Response 200)
           [(''alice'', Details None None)]
           [RegistryEntry (Some [''bob''])]
           \<lparr>requests = [], stdout = []\<rparr>"
  have a: "?A = Inr (0, snd (projr ?A))" by code_simp
  have b: "?B = Inr (1, snd (projr ?B))" by code_simp
  from main_exit_status [OF a] main_exit_status [OF b] a b show ?thesis
    by (metis zero_neq_one)
qed

subsection \<open>Results of the two checks\<close>

text \<open>
  C3. When the HEAD request for the profile page of a handle gets status 404,
  \<open>check_github_handle\<close> gives \<open>False\<close> with the reason \<open>GitHub profile not found\<close>.
\<close>

theorem check_github_handle_not_found:
  assumes "net (length (requests w)) (''https://github.com/'' @ username) = Response 404"
  shows "fst (check_github_handle net username w) = (False, Some ''GitHub profile not found'')"
  using assms by (simp add: check_github_handle_def requests_head_def)

theorem check_github_handle_not_found_witness:
  "fst (check_github_handle (\<lambda>n u. if u = ''https://github.com/ghost'' then Response 404 else Response 200)
          ''ghost'' \<lparr>requests = [], stdout = []\<rparr>)
     = (False, Some ''GitHub profile not found'')"
  by (rule check_github_handle_not_found) simp

text \<open>
  C4. When the HEAD request gets a status \<open>c \<ge> 400\<close>, the reason is \<open>HTTP c\<close> with \<open>c\<close> in
  decimal: for \<open>check_github_handle\<close> when \<open>c\<close> is not 404, for \<open>check_url\<close> for every such
  \<open>c\<close> (a request is issued only for a URL without \<open>x.com\<close> in it).
\<close>

theorem http_error_reason:
  "(net (length (requests w)) (''https://github.com/'' @ username) = Response c \<longrightarrow> c \<ge> 400 \<longrightarrow> c \<noteq> 404
      \<longrightarrow> fst (check_github_handle net username w) = (False, Some (''HTTP '' @ str_int c)))
   \<and> (\<not> sublist ''x.com'' url \<longrightarrow> net (length (requests w)) url = Response c \<longrightarrow> c \<ge> 400
      \<longrightarrow> fst (check_url net url w) = (False, Some (''HTTP '' @ str_int c)))"
  by (simp add: check_github_handle_def check_url_def requests_head_def)

lemma str_int_503: "str_int 503 = ''503''" by code_simp
lemma str_int_404: "str_int 404 = ''404''" by code_simp

theorem http_error_reason_witness:
  "fst (check_github_handle (\<lambda>n u. Response 503) ''alice'' \<lparr>requests = [], stdout = []\<rparr>)
     = (False, Some ''HTTP 503'')
   \<and> fst (check_url (\<lambda>n u. Response 404) ''https://dead.example/x'' \<lparr>requests = [], stdout = []\<rparr>)
     = (False, Some ''HTTP 404'')"
proof -
  have n: "\<not> sublist ''x.com'' ''https://dead.example/x''" by code_simp
  show ?thesis
    using http_error_reason [of "\<lambda>n u. Response 503" "\<lparr>requests = [], stdout = []\<rparr>" "''alice''" 503]
      http_error_reason [of "\<lambda>n u. Response 404" "\<lparr>requests = [], stdout = []\<rparr>" _ 404 "''https://dead.example/x''"] n
    by (simp add: str_int_503 str_int_404)
qed







text \<open>
  C9. The test is on the whole string: \<open>check_url\<close> skips, without a request, exactly
  the URLs that contain \<open>x.com\<close> somewhere, as \<^verbatim>\<open>https://max.com/\<close> and
  \<^verbatim>\<open>https://good.example/x.com\<close> do.
\<close>

theorem check_url_skips_substring:
  "(\<exists>ps ss. url = ps @ ''x.com'' @ ss) \<longleftrightarrow>
     check_url net url w = ((True, Some ''skipped (x.com)''), w)"
proof
  assume "\<exists>ps ss. url = ps @ ''x.com'' @ ss"
  then have "sublist ''x.com'' url" by (simp add: sublist_def)
  then show "check_url net url w = ((True, Some ''skipped (x.com)''), w)"
    by (simp add: check_url_def)
next
  assume r: "check_url net url w = ((True, Some ''skipped (x.com)''), w)"
  have "sublist ''x.com'' url"
  proof (rule ccontr)
    assume "\<not> sublist ''x.com'' url"
    then have "requests (snd (check_url net url w)) = requests w @ [url]"
      by (simp add: check_url_def requests_head_def split: http_result.split)
    with r show False by simp
  qed
  then show "\<exists>ps ss. url = ps @ ''x.com'' @ ss" by (simp add: sublist_def)
qed

theorem check_url_skips_substring_witness:
  "check_url (\<lambda>n u. Response 500) ''https://max.com/'' \<lparr>requests = [], stdout = []\<rparr>
     = ((True, Some ''skipped (x.com)''), \<lparr>requests = [], stdout = []\<rparr>)
   \<and> check_url (\<lambda>n u. Response 500) ''https://good.example/x.com'' \<lparr>requests = [], stdout = []\<rparr>
     = ((True, Some ''skipped (x.com)''), \<lparr>requests = [], stdout = []\<rparr>)
   \<and> check_url (\<lambda>n u. Response 500) ''https://X.com/eve'' \<lparr>requests = [], stdout = []\<rparr>
     \<noteq> ((True, Some ''skipped (x.com)''), \<lparr>requests = [], stdout = []\<rparr>)"
proof -
  have a: "\<exists>ps ss. ''https://max.com/'' = ps @ ''x.com'' @ ss"
    by (rule exI [of _ "''https://ma''"], rule exI [of _ "''/''"]) simp
  have b: "\<exists>ps ss. ''https://good.example/x.com'' = ps @ ''x.com'' @ ss"
    by (rule exI [of _ "''https://good.example/''"], rule exI [of _ "[]"]) simp
  have c: "\<not> (\<exists>ps ss. ''https://X.com/eve'' = ps @ ''x.com'' @ ss)"
    using sublist_def [of "''x.com''" "''https://X.com/eve''"] by (simp add: sublist_code(3))
  show ?thesis
    using check_url_skips_substring [of "''https://max.com/''"] a
      check_url_skips_substring [of "''https://good.example/x.com''"] b
      check_url_skips_substring [of "''https://X.com/eve''"] c
    by blast
qed

subsection \<open>Step 3 and the missing authors\<close>

lemma collect_registry_authors_eq:
  "collect_registry_authors registry A = A \<union> referenced_handles registry"
proof (induction registry arbitrary: A)
  case Nil
  show ?case by (simp add: referenced_handles_def)
next
  case (Cons entry rest)
  have "fold insert as A = set as \<union> A" for as
    by (simp add: union_set_fold)
  then show ?case
    by (auto simp add: Cons.IH referenced_handles_def split: option.splits)
qed

lemma finite_referenced_handles: "finite (referenced_handles registry)"
  by (auto simp add: referenced_handles_def split: option.splits)

lemma verify_registry_author_fields [simp]:
  "failed_handles (verify_registry_author authors a s) = failed_handles s"
  "failed_urls (verify_registry_author authors a s) = failed_urls s"
  "requests (verify_registry_author authors a s) = requests s"
  by (simp_all add: verify_registry_author_def)

lemma fold_verify_registry_author_fields [simp]:
  "failed_handles (fold (verify_registry_author authors) xs s) = failed_handles s"
  "failed_urls (fold (verify_registry_author authors) xs s) = failed_urls s"
  "requests (fold (verify_registry_author authors) xs s) = requests s"
  by (induction xs arbitrary: s; simp)+

lemma fold_verify_registry_author_missing:
  "missing_authors (fold (verify_registry_author authors) xs s) =
     missing_authors s @ filter (\<lambda>author. author \<notin> fst ` set authors) xs"
  by (induction xs arbitrary: s) (simp_all add: verify_registry_author_def)

lemma fold_verify_registry_author_stdout:
  "stdout (fold (verify_registry_author authors) xs s) =
     stdout s @ map (\<lambda>author.
       if author \<in> fst ` set authors then ''  '' @ check_mark @ '' '' @ author
       else ''  '' @ cross_mark @ '' Author '' @ [CHR 0x27] @ author @ [CHR 0x27]
              @ '' not found in authors.yaml'') xs"
  by (induction xs arbitrary: s) (simp_all add: verify_registry_author_def)

lemma filter_sorted_list_of_set:
  fixes A :: "'a::linorder set"
  assumes "finite A"
  shows "filter P (sorted_list_of_set A) = sorted_list_of_set {x \<in> A. P x}"
proof (rule sorted_distinct_set_unique)
  show "sorted (filter P (sorted_list_of_set A))" by (simp add: sorted_wrt_filter)
  show "distinct (filter P (sorted_list_of_set A))" by simp
  show "sorted (sorted_list_of_set {x \<in> A. P x})" by simp
  show "distinct (sorted_list_of_set {x \<in> A. P x})" by simp
  show "set (filter P (sorted_list_of_set A)) = set (sorted_list_of_set {x \<in> A. P x})"
    using assms by auto
qed

lemma verify_registry_authors_fields [simp]:
  "failed_handles (verify_registry_authors authors registry s) = failed_handles s"
  "failed_urls (verify_registry_authors authors registry s) = failed_urls s"
  "requests (verify_registry_authors authors registry s) = requests s"
  by (simp_all add: verify_registry_authors_def Let_def)

lemma verify_registry_authors_missing:
  "missing_authors (verify_registry_authors authors registry s) =
     missing_authors s @ sorted_list_of_set (referenced_handles registry - fst ` set authors)"
proof -
  have "{x \<in> referenced_handles registry. x \<notin> fst ` set authors}
          = referenced_handles registry - fst ` set authors"
    by auto
  then show ?thesis
    by (simp add: verify_registry_authors_def Let_def fold_verify_registry_author_missing
        collect_registry_authors_eq filter_sorted_list_of_set finite_referenced_handles)
qed

lemma verify_registry_authors_stdout:
  "stdout (verify_registry_authors authors registry s) =
     stdout s
     @ (''Found '' @ str_nat (card (referenced_handles registry)) @ '' unique authors in registry.yaml'')
     # map (\<lambda>author.
         if author \<in> fst ` set authors then ''  '' @ check_mark @ '' '' @ author
         else ''  '' @ cross_mark @ '' Author '' @ [CHR 0x27] @ author @ [CHR 0x27]
                @ '' not found in authors.yaml'')
         (sorted_list_of_set (referenced_handles registry))"
  by (simp add: verify_registry_authors_def Let_def fold_verify_registry_author_stdout
      collect_registry_authors_eq)

lemma verify_author_urls_fields:
  "verify_author_urls net u d s = Inr s' \<Longrightarrow>
     failed_handles s' = failed_handles s \<and> missing_authors s' = missing_authors s"
  "verify_author_urls net u d s = Inl (e, s') \<Longrightarrow>
     failed_handles s' = failed_handles s \<and> missing_authors s' = missing_authors s
     \<and> failed_urls s' = failed_urls s \<and> requests s' = requests s"
  by (auto simp add: verify_author_urls_def Let_def split: author_details.splits option.splits)

lemma verify_urls_Inr_fields:
  "verify_urls net a s = Inr s' \<Longrightarrow>
     failed_handles s' = failed_handles s \<and> missing_authors s' = missing_authors s"
proof (induction net a s rule: verify_urls.induct)
  case (1 net s)
  then show ?case by simp
next
  case (2 net username details rest s)
  then show ?case
    by (auto split: sum.splits dest: verify_author_urls_fields(1))
qed

lemma main_InrE:
  assumes "main net authors registry w = Inr (status, s)"
  obtains s0 s2 h1 h2 h3 where
    "failed_handles s0 = []" and "failed_urls s0 = []" and "missing_authors s0 = []"
    and "requests s0 = requests w" and "stdout s0 = stdout w"
    and "verify_urls net authors (print h2 (verify_handles net authors (print h1 s0))) = Inr s2"
    and "report_results (verify_registry_authors authors registry (print h3 s2)) = (status, s)"
proof -
  define s0 :: state where "s0 = \<lparr>requests = requests w, stdout = stdout w,
                failed_handles = [], failed_urls = [], missing_authors = []\<rparr>"
  define h1 where "h1 = ''=== Verifying GitHub Handles ==='' @ newline"
  define h2 where "h2 = newline @ ''=== Verifying Author URLs ==='' @ newline"
  define h3 where "h3 = newline @ ''=== Verifying Registry Authors ==='' @ newline"
  have m: "main net authors registry w =
      (case verify_urls net authors (print h2 (verify_handles net authors (print h1 s0))) of
         Inl e \<Rightarrow> Inl e
       | Inr s2 \<Rightarrow> Inr (report_results (verify_registry_authors authors registry (print h3 s2))))"
    unfolding main_def Let_def s0_def h1_def h2_def h3_def ..
  from assms obtain s2 where
    u: "verify_urls net authors (print h2 (verify_handles net authors (print h1 s0))) = Inr s2"
    and r: "report_results (verify_registry_authors authors registry (print h3 s2)) = (status, s)"
    unfolding m by (auto split: sum.splits)
  show thesis
    by (rule that [OF _ _ _ _ _ u r]) (simp_all add: s0_def)
qed

lemma main_Inr_missing_authors:
  assumes "main net authors registry w = Inr (status, s)"
  shows "missing_authors s = sorted_list_of_set (referenced_handles registry - fst ` set authors)"
proof -
  from assms obtain s0 s2 h1 h2 h3 where
    z: "missing_authors s0 = []"
    and u: "verify_urls net authors (print h2 (verify_handles net authors (print h1 s0))) = Inr s2"
    and r: "report_results (verify_registry_authors authors registry (print h3 s2)) = (status, s)"
    by (rule main_InrE)
  from verify_urls_Inr_fields [OF u] z have "missing_authors s2 = []" by simp
  moreover from r have "s = snd (report_results (verify_registry_authors authors registry (print h3 s2)))"
    by simp
  ultimately show ?thesis by (simp add: verify_registry_authors_missing)
qed

text \<open>
  C2. The handles collected by step 3 are those of the \<open>authors\<close> fields of the registry
  entries (an entry without the field adds none). They are checked in sorted order, one
  line each, and step 3 appends to \<open>missing_authors\<close>, sorted and without repetition,
  exactly the referenced handles that are not keys of the authors file. A run that reaches
  the report ends with \<open>missing_authors\<close> holding exactly these.
\<close>

theorem missing_authors_exact:
  assumes "main net authors registry w = Inr (status, s)"
  shows "set (missing_authors s) = referenced_handles registry - fst ` set authors
       \<and> missing_authors s = sorted_list_of_set (referenced_handles registry - fst ` set authors)
       \<and> collect_registry_authors registry {} = referenced_handles registry
       \<and> missing_authors (verify_registry_authors authors registry s0) =
           missing_authors s0
           @ sorted_list_of_set (referenced_handles registry - fst ` set authors)
       \<and> stdout (verify_registry_authors authors registry s0) =
           stdout s0
           @ (''Found '' @ str_nat (card (referenced_handles registry))
                @ '' unique authors in registry.yaml'')
           # map (\<lambda>author.
               if author \<in> fst ` set authors then ''  '' @ check_mark @ '' '' @ author
               else ''  '' @ cross_mark @ '' Author '' @ [CHR 0x27] @ author @ [CHR 0x27]
                      @ '' not found in authors.yaml'')
               (sorted_list_of_set (referenced_handles registry))"
proof -
  have m: "missing_authors s = sorted_list_of_set (referenced_handles registry - fst ` set authors)"
    using assms by (rule main_Inr_missing_authors)
  have "finite (referenced_handles registry - fst ` set authors)"
    by (simp add: finite_referenced_handles)
  then have "set (missing_authors s) = referenced_handles registry - fst ` set authors"
    by (simp add: m)
  with m show ?thesis
    by (simp add: collect_registry_authors_eq verify_registry_authors_stdout
        verify_registry_authors_missing)
qed

theorem missing_authors_exact_witness:
  "\<exists>s. main (\<lambda>n u. Response 200)
          [(''al'', Details None None)]
          [RegistryEntry None, RegistryEntry (Some [''zed'', ''al'', ''amy'', ''zed''])]
          \<lparr>requests = [], stdout = []\<rparr> = Inr (1, s)
      \<and> missing_authors s = [''amy'', ''zed'']
      \<and> referenced_handles [RegistryEntry None, RegistryEntry (Some [''zed'', ''al'', ''amy'', ''zed''])]
            - fst ` set [(''al'', Details None None)] = {''amy'', ''zed''}"
proof -
  let ?M = "main (\<lambda>n u. Response 200)
          [(''al'', Details None None)]
          [RegistryEntry None, RegistryEntry (Some [''zed'', ''al'', ''amy'', ''zed''])]
          \<lparr>requests = [], stdout = []\<rparr>"
  have r: "?M = Inr (1, snd (projr ?M))" by code_simp
  have m: "missing_authors (snd (projr ?M)) = [''amy'', ''zed'']" by code_simp
  from missing_authors_exact [OF r] m r show ?thesis
    by (intro exI [of _ "snd (projr ?M)"]) auto
qed

subsection \<open>Null details abort the run\<close>

lemma verify_website_requests:
  "requests (verify_website net u url s) =
     (if sublist ''x.com'' url then requests s else requests s @ [url])"
  by (simp add: verify_website_def Let_def split_beta)

lemma verify_avatar_requests:
  "requests (verify_avatar net u url s) =
     (if sublist ''x.com'' url then requests s else requests s @ [url])"
  by (simp add: verify_avatar_def Let_def split_beta)

lemma verify_author_urls_requests:
  assumes "verify_author_urls net u d s = Inr s'"
  shows "prefix (requests s) (requests s')"
  using assms
  by (auto simp add: verify_author_urls_def Let_def verify_website_requests verify_avatar_requests
      split: author_details.splits option.splits)

lemma isl_verify_author_urls:
  "isl (verify_author_urls net u d s) \<longleftrightarrow> d = Null"
  by (simp add: verify_author_urls_def Let_def split: author_details.splits)

lemma verify_author_urls_Inl:
  assumes "verify_author_urls net u d s = Inl (e, s')"
  shows "e = TypeError \<and> d = Null \<and> s' = print (''Checking URLs for '' @ u @ ''...'') s"
  using assms by (auto simp add: verify_author_urls_def Let_def split: author_details.splits)

lemma isl_verify_urls:
  "isl (verify_urls net a s) \<longleftrightarrow> Null \<in> snd ` set a"
proof (induction net a s rule: verify_urls.induct)
  case (1 net s)
  show ?case by simp
next
  case (2 net username details rest s)
  show ?case
  proof (cases "verify_author_urls net username details s")
    case (Inl e)
    then have "details = Null"
      using isl_verify_author_urls [of net username details s] by simp
    with Inl show ?thesis by simp
  next
    case (Inr s')
    then have "details \<noteq> Null"
      using isl_verify_author_urls [of net username details s] by auto
    with Inr "2.IH" [OF Inr] show ?thesis by auto
  qed
qed

lemma verify_urls_Inl:
  assumes "verify_urls net a s = Inl (e, s')"
  shows "e = TypeError
       \<and> failed_handles s' = failed_handles s \<and> missing_authors s' = missing_authors s
       \<and> prefix (requests s) (requests s')
       \<and> (\<exists>u. (u, Null) \<in> set a \<and> last (stdout s') = ''Checking URLs for '' @ u @ ''...'')"
  using assms
proof (induction net a s rule: verify_urls.induct)
  case (1 net s)
  then show ?case by simp
next
  case (2 net username details rest s)
  show ?case
  proof (cases "verify_author_urls net username details s")
    case (Inl x)
    with "2.prems" have "verify_author_urls net username details s = Inl (e, s')" by simp
    from verify_author_urls_Inl [OF this] show ?thesis by auto
  next
    case (Inr s1)
    with "2.prems" have r: "verify_urls net rest s1 = Inl (e, s')" by simp
    from "2.IH" [OF Inr r] verify_author_urls_fields(1) [OF Inr] verify_author_urls_requests [OF Inr]
    show ?thesis by (auto intro: prefix_order.trans)
  qed
qed

lemma main_cases:
  obtains s0 h1 h2 h3 where
    "failed_handles s0 = []" and "failed_urls s0 = []" and "missing_authors s0 = []"
    and "requests s0 = requests w" and "stdout s0 = stdout w"
    and "main net authors registry w =
      (case verify_urls net authors (print h2 (verify_handles net authors (print h1 s0))) of
         Inl e \<Rightarrow> Inl e
       | Inr s2 \<Rightarrow> Inr (report_results (verify_registry_authors authors registry (print h3 s2))))"
proof -
  define s0 :: state where "s0 = \<lparr>requests = requests w, stdout = stdout w,
                failed_handles = [], failed_urls = [], missing_authors = []\<rparr>"
  define h1 where "h1 = ''=== Verifying GitHub Handles ==='' @ newline"
  define h2 where "h2 = newline @ ''=== Verifying Author URLs ==='' @ newline"
  define h3 where "h3 = newline @ ''=== Verifying Registry Authors ==='' @ newline"
  have m: "main net authors registry w =
      (case verify_urls net authors (print h2 (verify_handles net authors (print h1 s0))) of
         Inl e \<Rightarrow> Inl e
       | Inr s2 \<Rightarrow> Inr (report_results (verify_registry_authors authors registry (print h3 s2))))"
    unfolding main_def Let_def s0_def h1_def h2_def h3_def ..
  show thesis
    by (rule that [OF _ _ _ _ _ m]) (simp_all add: s0_def)
qed


text \<open>
  C10. When some handle of the authors file maps to \<open>Null\<close>, the run ends with an uncaught
  \<open>TypeError\<close>: step 1 has issued the request for every handle, the last line printed is the
  \<open>Checking URLs\<close> line of an author whose details are \<open>Null\<close>, and step 3 has not run,
  so that \<open>missing_authors\<close> is still empty and there is no exit status from the report.
\<close>

theorem main_null_details_aborts:
  assumes "(username, Null) \<in> set authors"
  shows "\<exists>s. main net authors registry w = Inl (TypeError, s)
           \<and> prefix (requests w @ map (\<lambda>(u, d). ''https://github.com/'' @ u) authors) (requests s)
           \<and> (\<exists>u. (u, Null) \<in> set authors \<and> last (stdout s) = ''Checking URLs for '' @ u @ ''...'')
           \<and> missing_authors s = []"
proof -
  obtain s0 h1 h2 h3 where
    z: "missing_authors s0 = []" and q: "requests s0 = requests w"
    and m: "main net authors registry w =
      (case verify_urls net authors (print h2 (verify_handles net authors (print h1 s0))) of
         Inl e \<Rightarrow> Inl e
       | Inr s2 \<Rightarrow> Inr (report_results (verify_registry_authors authors registry (print h3 s2))))"
    by (rule main_cases)
  let ?s1 = "print h2 (verify_handles net authors (print h1 s0))"
  from assms have "Null \<in> snd ` set authors" by force
  then have "isl (verify_urls net authors ?s1)" by (simp add: isl_verify_urls)
  then obtain e s where u: "verify_urls net authors ?s1 = Inl (e, s)"
    by (cases "verify_urls net authors ?s1") auto
  from verify_urls_Inl [OF u] z q
  have "e = TypeError" and "missing_authors s = []"
    and "prefix (requests w @ map (\<lambda>(u, d). ''https://github.com/'' @ u) authors) (requests s)"
    and "\<exists>u. (u, Null) \<in> set authors \<and> last (stdout s) = ''Checking URLs for '' @ u @ ''...''"
    by simp_all
  with u m show ?thesis by simp
qed

theorem main_null_details_aborts_witness:
  "\<exists>s. main (\<lambda>n u. Response 200)
          [(''eve'', Details (Some ''https://good.example'') None), (''alice'', Null),
           (''bob'', Details None None)]
          [RegistryEntry (Some [''carol''])]
          \<lparr>requests = [], stdout = []\<rparr> = Inl (TypeError, s)
      \<and> requests s = [''https://github.com/eve'', ''https://github.com/alice'',
                       ''https://github.com/bob'', ''https://good.example'']
      \<and> last (stdout s) = ''Checking URLs for alice...''
      \<and> missing_authors s = []"
proof -
  let ?M = "main (\<lambda>n u. Response 200)
          [(''eve'', Details (Some ''https://good.example'') None), (''alice'', Null),
           (''bob'', Details None None)]
          [RegistryEntry (Some [''carol''])]
          \<lparr>requests = [], stdout = []\<rparr>"
  have a: "(''alice'', Null) \<in> set [(''eve'', Details (Some ''https://good.example'') None),
             (''alice'', Null), (''bob'', Details None None)]"
    by simp
  have r: "requests (snd (projl ?M)) = [''https://github.com/eve'', ''https://github.com/alice'',
                       ''https://github.com/bob'', ''https://good.example'']"
    by code_simp
  have l: "last (stdout (snd (projl ?M))) = ''Checking URLs for alice...''"
    by code_simp
  from main_null_details_aborts [OF a, of "\<lambda>n u. Response 200" "[RegistryEntry (Some [''carol''])]"
      "\<lparr>requests = [], stdout = []\<rparr>"]
  obtain s where "?M = Inl (TypeError, s)" and "missing_authors s = []" by blast
  with r l show ?thesis by simp
qed

subsection \<open>Transport errors\<close>

lemma fst_check_github_handle_print [simp]:
  "fst (check_github_handle net u (print t s)) = fst (check_github_handle net u s)"
  by (simp add: check_github_handle_def requests_head_def split: http_result.split)

lemma fst_check_url_print [simp]:
  "fst (check_url net url (print t s)) = fst (check_url net url s)"
  by (simp add: check_url_def requests_head_def split: http_result.split)

lemma verify_handle_failed_handles:
  "failed_handles (verify_handle net u s) =
     failed_handles s @
       (if fst (fst (check_github_handle net u s)) then []
        else [u @ '' ('' @ fmt (snd (fst (check_github_handle net u s))) @ '')''])"
  by (simp add: verify_handle_def Let_def split_beta)

lemma verify_website_failed_urls:
  "failed_urls (verify_website net u url s) =
     failed_urls s @
       (if fst (fst (check_url net url s)) then []
        else [u @ ''.website: '' @ url @ '' ('' @ fmt (snd (fst (check_url net url s))) @ '')''])"
  by (simp add: verify_website_def Let_def split_beta)

lemma verify_avatar_failed_urls:
  "failed_urls (verify_avatar net u url s) =
     failed_urls s @
       (if fst (fst (check_url net url s)) then []
        else [u @ ''.avatar: '' @ url @ '' ('' @ fmt (snd (fst (check_url net url s))) @ '')''])"
  by (simp add: verify_avatar_def Let_def split_beta)












subsection \<open>Skipped URLs and clean runs\<close>

lemma verify_website_skipped:
  assumes "check_url net url s = ((True, Some r), s')" and "r \<noteq> []"
  shows "verify_website net username url s =
           print (''  '' @ skip_mark @ '' Website URL '' @ r @ '': '' @ url) s'"
  using assms by (simp add: verify_website_def)

lemma verify_avatar_skipped:
  assumes "check_url net url s = ((True, Some r), s')" and "r \<noteq> []"
  shows "verify_avatar net username url s =
           print (''  '' @ skip_mark @ '' Avatar URL '' @ r @ '': '' @ url) s'"
  using assms by (simp add: verify_avatar_def)

lemma check_github_handle_ok:
  assumes "net (length (requests w)) (''https://github.com/'' @ u) = Response c" and "c < 400"
  shows "fst (check_github_handle net u w) = (True, None)"
  using assms by (simp add: check_github_handle_def requests_head_def)

lemma check_url_ok:
  assumes "sublist ''x.com'' url \<or> (\<exists>c. net (length (requests w)) url = Response c \<and> c < 400)"
  shows "fst (fst (check_url net url w))"
  using assms by (auto simp add: check_url_def requests_head_def)

lemma verify_handles_clean:
  assumes "\<forall>(h, d) \<in> set a. \<forall>n. \<exists>c. net n (''https://github.com/'' @ h) = Response c \<and> c < 400"
  shows "failed_handles (verify_handles net a s) = failed_handles s"
  using assms
proof (induction net a s rule: verify_handles.induct)
  case (1 net s)
  show ?case by simp
next
  case (2 net username details rest s)
  from "2.prems" obtain c
    where "net (length (requests s)) (''https://github.com/'' @ username) = Response c" and "c < 400"
    by fastforce
  then have "fst (check_github_handle net username s) = (True, None)"
    by (rule check_github_handle_ok)
  then have "failed_handles (verify_handle net username s) = failed_handles s"
    by (simp add: verify_handle_failed_handles)
  moreover have "failed_handles (verify_handles net rest (verify_handle net username s))
      = failed_handles (verify_handle net username s)"
    using "2.prems" by (intro "2.IH") simp
  ultimately show ?case by simp
qed

lemma verify_urls_clean:
  assumes "\<forall>(h, d) \<in> set a. \<exists>wo ao. d = Details wo ao
             \<and> (\<forall>u \<in> set_option wo \<union> set_option ao.
                   sublist ''x.com'' u \<or> (\<forall>n. \<exists>c. net n u = Response c \<and> c < 400))"
  shows "\<exists>s'. verify_urls net a s = Inr s' \<and> failed_urls s' = failed_urls s"
  using assms
proof (induction net a s rule: verify_urls.induct)
  case (1 net s)
  show ?case by simp
next
  case (2 net username details rest s)
  from "2.prems" obtain wo ao where d: "details = Details wo ao"
    and ok: "\<forall>u \<in> set_option wo \<union> set_option ao.
               sublist ''x.com'' u \<or> (\<forall>n. \<exists>c. net n u = Response c \<and> c < 400)"
    by auto
  have c: "fst (fst (check_url net u t))" if "u \<in> set_option wo \<union> set_option ao" for u and t :: state
    using ok that by (intro check_url_ok) blast
  obtain s1 where a: "verify_author_urls net username details s = Inr s1"
    and f: "failed_urls s1 = failed_urls s"
    using c by (cases wo; cases ao)
      (simp_all add: d verify_author_urls_def Let_def verify_website_failed_urls
        verify_avatar_failed_urls)
  from "2.prems" have "\<forall>(h, d) \<in> set rest. \<exists>wo ao. d = Details wo ao
             \<and> (\<forall>u \<in> set_option wo \<union> set_option ao.
                   sublist ''x.com'' u \<or> (\<forall>n. \<exists>c. net n u = Response c \<and> c < 400))"
    by simp
  from "2.IH" [OF a this] a f show ?case by simp
qed

lemma main_clean:
  assumes h: "\<forall>(h, d) \<in> set authors. \<forall>n. \<exists>c. net n (''https://github.com/'' @ h) = Response c \<and> c < 400"
    and u: "\<forall>(h, d) \<in> set authors. \<exists>wo ao. d = Details wo ao
             \<and> (\<forall>u \<in> set_option wo \<union> set_option ao.
                   sublist ''x.com'' u \<or> (\<forall>n. \<exists>c. net n u = Response c \<and> c < 400))"
    and r: "referenced_handles registry \<subseteq> fst ` set authors"
  shows "\<exists>s. main net authors registry w = Inr (0, s)
           \<and> failed_handles s = [] \<and> failed_urls s = [] \<and> missing_authors s = []"
proof -
  obtain s0 h1 h2 h3 where
    z: "failed_handles s0 = []" "failed_urls s0 = []" "missing_authors s0 = []"
    and m: "main net authors registry w =
      (case verify_urls net authors (print h2 (verify_handles net authors (print h1 s0))) of
         Inl e \<Rightarrow> Inl e
       | Inr s2 \<Rightarrow> Inr (report_results (verify_registry_authors authors registry (print h3 s2))))"
    by (rule main_cases)
  let ?s1 = "print h2 (verify_handles net authors (print h1 s0))"
  from verify_urls_clean [OF u, of ?s1] obtain s2 where
    v: "verify_urls net authors ?s1 = Inr s2" and fu: "failed_urls s2 = failed_urls ?s1"
    by blast
  let ?s3 = "verify_registry_authors authors registry (print h3 s2)"
  have fh1: "failed_handles ?s1 = []"
    using verify_handles_clean [OF h, of "print h1 s0"] z by simp
  have fh2: "failed_handles s2 = []"
    using verify_urls_Inr_fields [OF v] fh1 by simp
  have fu2: "failed_urls s2 = []" using fu z by simp
  have e: "referenced_handles registry - fst ` set authors = {}" using r by blast
  have "missing_authors s2 = []"
    using verify_urls_Inr_fields [OF v] z by simp
  then have c: "missing_authors ?s3 = []"
    unfolding verify_registry_authors_missing e by simp
  have "fst (report_results ?s3) = 0"
    by (simp add: fst_report_results fh2 fu2 c)
  then have rr: "report_results ?s3 = (0, snd (report_results ?s3))"
    by (metis prod.collapse)
  have mm: "main net authors registry w = Inr (0, snd (report_results ?s3))"
    unfolding m v using rr by simp
  have "failed_handles (snd (report_results ?s3)) = []"
    and "failed_urls (snd (report_results ?s3)) = []"
    and "missing_authors (snd (report_results ?s3)) = []"
    using c by (simp_all add: fh2 fu2)
  with mm show ?thesis by blast
qed

text \<open>
  C6. In step 2 a check that gives \<open>True\<close> with a non-empty reason only adds the
  informational line: \<open>failed_urls\<close> is as before. A run in which every handle request
  gets a status below 400, every declared URL either contains \<open>x.com\<close> (whatever the
  network would answer for it) or gets a status below 400, and every handle of the
  registry is a key of the authors file, exits with status 0 and three empty lists.
\<close>

theorem skipped_url_not_a_failure:
  "(check_url net url s = ((True, Some r), s') \<longrightarrow> r \<noteq> [] \<longrightarrow>
      verify_website net username url s =
        print (''  '' @ skip_mark @ '' Website URL '' @ r @ '': '' @ url) s'
      \<and> verify_avatar net username url s =
        print (''  '' @ skip_mark @ '' Avatar URL '' @ r @ '': '' @ url) s'
      \<and> failed_urls (verify_website net username url s) = failed_urls s
      \<and> failed_urls (verify_avatar net username url s) = failed_urls s)
   \<and> ((\<forall>(h, d) \<in> set authors. \<forall>n. \<exists>c. net n (''https://github.com/'' @ h) = Response c \<and> c < 400)
        \<longrightarrow> (\<forall>(h, d) \<in> set authors. \<exists>wo ao. d = Details wo ao
               \<and> (\<forall>u \<in> set_option wo \<union> set_option ao.
                     sublist ''x.com'' u \<or> (\<forall>n. \<exists>c. net n u = Response c \<and> c < 400)))
        \<longrightarrow> referenced_handles registry \<subseteq> fst ` set authors
        \<longrightarrow> (\<exists>t. main net authors registry w = Inr (0, t)
                \<and> failed_handles t = [] \<and> failed_urls t = [] \<and> missing_authors t = []))"
proof -
  have a: "verify_website net username url s =
        print (''  '' @ skip_mark @ '' Website URL '' @ r @ '': '' @ url) s'
      \<and> verify_avatar net username url s =
        print (''  '' @ skip_mark @ '' Avatar URL '' @ r @ '': '' @ url) s'
      \<and> failed_urls (verify_website net username url s) = failed_urls s
      \<and> failed_urls (verify_avatar net username url s) = failed_urls s"
    if c: "check_url net url s = ((True, Some r), s')" and r: "r \<noteq> []"
  proof -
    have k: "fst (fst (check_url net url s))" using c by simp
    have "failed_urls (verify_website net username url s) = failed_urls s"
      and "failed_urls (verify_avatar net username url s) = failed_urls s"
      using k by (simp_all add: verify_website_failed_urls verify_avatar_failed_urls)
    with verify_website_skipped [OF c r] verify_avatar_skipped [OF c r]
    show ?thesis by blast
  qed
  from a main_clean [of authors net registry w] show ?thesis by blast
qed

theorem skipped_url_not_a_failure_witness:
  "\<exists>t. main (\<lambda>n u. if sublist ''x.com'' u then Response 403 else Response 200)
          [(''eve'', Details (Some ''https://x.com/eve'') None)]
          [RegistryEntry (Some [''eve''])]
          \<lparr>requests = [], stdout = []\<rparr> = Inr (0, t)
      \<and> failed_handles t = [] \<and> failed_urls t = [] \<and> missing_authors t = []
      \<and> requests t = [''https://github.com/eve'']
      \<and> ''  '' @ skip_mark @ '' Website URL skipped (x.com): https://x.com/eve'' \<in> set (stdout t)"
proof -
  let ?net = "\<lambda>(n::nat) u. if sublist ''x.com'' u then Response 403 else Response 200"
  let ?A = "[(''eve'', Details (Some ''https://x.com/eve'') None)]"
  let ?R = "[RegistryEntry (Some [''eve''])]"
  let ?w = "\<lparr>requests = [], stdout = []\<rparr>"
  let ?M = "main ?net ?A ?R ?w"
  have h: "\<forall>(h, d) \<in> set ?A. \<forall>n. \<exists>c. ?net n (''https://github.com/'' @ h) = Response c \<and> c < 400"
    by (simp add: sublist_code(3))
  have u: "\<forall>(h, d) \<in> set ?A. \<exists>wo ao. d = Details wo ao
               \<and> (\<forall>u \<in> set_option wo \<union> set_option ao.
                     sublist ''x.com'' u \<or> (\<forall>n. \<exists>c. ?net n u = Response c \<and> c < 400))"
    by (simp add: sublist_code(3))
  have r: "referenced_handles ?R \<subseteq> fst ` set ?A"
    by (simp add: referenced_handles_def)
  have q: "requests (snd (projr ?M)) = [''https://github.com/eve'']" by code_simp
  have l: "''  '' @ skip_mark @ '' Website URL skipped (x.com): https://x.com/eve''
             \<in> set (stdout (snd (projr ?M)))" by code_simp
  from skipped_url_not_a_failure [of ?net _ _ _ _ _ ?A ?R ?w] h u r
  obtain t where t: "?M = Inr (0, t)"
    and e: "failed_handles t = []" "failed_urls t = []" "missing_authors t = []"
    by blast
  from t q l e show ?thesis by simp
qed

subsection \<open>Two runs on the same inputs\<close>

lemma same_run_print:
  "same_run w1 w2 s1 s2 \<Longrightarrow> same_run w1 w2 (print t s1) (print t s2)"
  by (auto simp add: same_run_def)

lemma same_run_failed_handles:
  "same_run w1 w2 s1 s2 \<Longrightarrow>
     same_run w1 w2 (s1\<lparr>failed_handles := failed_handles s1 @ [x]\<rparr>)
                    (s2\<lparr>failed_handles := failed_handles s2 @ [x]\<rparr>)"
  by (auto simp add: same_run_def)

lemma same_run_failed_urls:
  "same_run w1 w2 s1 s2 \<Longrightarrow>
     same_run w1 w2 (s1\<lparr>failed_urls := failed_urls s1 @ [x]\<rparr>)
                    (s2\<lparr>failed_urls := failed_urls s2 @ [x]\<rparr>)"
  by (auto simp add: same_run_def)

lemma same_run_missing_authors:
  "same_run w1 w2 s1 s2 \<Longrightarrow>
     same_run w1 w2 (s1\<lparr>missing_authors := missing_authors s1 @ [x]\<rparr>)
                    (s2\<lparr>missing_authors := missing_authors s2 @ [x]\<rparr>)"
  by (auto simp add: same_run_def)

lemma same_run_request:
  "same_run w1 w2 s1 s2 \<Longrightarrow>
     same_run w1 w2 (s1\<lparr>requests := requests s1 @ [u]\<rparr>) (s2\<lparr>requests := requests s2 @ [u]\<rparr>)"
  by (auto simp add: same_run_def)

lemma same_run_net:
  assumes "\<forall>k u. net1 (length (requests w1) + k) u = net2 (length (requests w2) + k) u"
    and "same_run w1 w2 s1 s2"
  shows "net1 (length (requests s1)) u = net2 (length (requests s2)) u"
proof -
  from assms(2) obtain rq where "requests s1 = requests w1 @ rq" and "requests s2 = requests w2 @ rq"
    by (auto simp add: same_run_def)
  then show ?thesis using assms(1) by simp
qed

lemma check_github_handle_same_run:
  assumes "\<forall>k u. net1 (length (requests w1) + k) u = net2 (length (requests w2) + k) u"
    and "same_run w1 w2 s1 s2"
  shows "fst (check_github_handle net1 u s1) = fst (check_github_handle net2 u s2)"
    and "same_run w1 w2 (snd (check_github_handle net1 u s1)) (snd (check_github_handle net2 u s2))"
proof -
  have "net1 (length (requests s1)) (''https://github.com/'' @ u)
      = net2 (length (requests s2)) (''https://github.com/'' @ u)"
    using assms by (rule same_run_net)
  then show "fst (check_github_handle net1 u s1) = fst (check_github_handle net2 u s2)"
    by (simp add: check_github_handle_def requests_head_def split: http_result.split)
  show "same_run w1 w2 (snd (check_github_handle net1 u s1)) (snd (check_github_handle net2 u s2))"
    unfolding snd_check_github_handle using assms(2) by (rule same_run_request)
qed

lemma check_url_same_run:
  assumes "\<forall>k u. net1 (length (requests w1) + k) u = net2 (length (requests w2) + k) u"
    and "same_run w1 w2 s1 s2"
  shows "fst (check_url net1 url s1) = fst (check_url net2 url s2)"
    and "same_run w1 w2 (snd (check_url net1 url s1)) (snd (check_url net2 url s2))"
proof -
  have "net1 (length (requests s1)) url = net2 (length (requests s2)) url"
    using assms by (rule same_run_net)
  then show "fst (check_url net1 url s1) = fst (check_url net2 url s2)"
    by (simp add: check_url_def requests_head_def split: http_result.split)
  show "same_run w1 w2 (snd (check_url net1 url s1)) (snd (check_url net2 url s2))"
    unfolding snd_check_url using assms(2) by (simp add: same_run_request)
qed

lemma verify_handle_same_run:
  assumes h: "\<forall>k u. net1 (length (requests w1) + k) u = net2 (length (requests w2) + k) u"
    and sr: "same_run w1 w2 s1 s2"
  shows "same_run w1 w2 (verify_handle net1 u s1) (verify_handle net2 u s2)"
proof -
  define t where "t = ''Checking GitHub handle: '' @ u @ ''...''"
  define c1 where "c1 = check_github_handle net1 u (print t s1)"
  define c2 where "c2 = check_github_handle net2 u (print t s2)"
  have p: "same_run w1 w2 (print t s1) (print t s2)"
    using sr by (rule same_run_print)
  have f: "fst c1 = fst c2" and q: "same_run w1 w2 (snd c1) (snd c2)"
    unfolding c1_def c2_def by (rule check_github_handle_same_run [OF h p])+
  have v1: "verify_handle net1 u s1 =
      (if \<not> fst (fst c1)
       then print (''  '' @ cross_mark @ '' '' @ fmt (snd (fst c1)))
              ((snd c1)\<lparr>failed_handles := failed_handles (snd c1) @ [u @ '' ('' @ fmt (snd (fst c1)) @ '')'']\<rparr>)
       else print (''  '' @ check_mark @ '' OK'') (snd c1))"
    unfolding verify_handle_def Let_def split_beta c1_def t_def ..
  have v2: "verify_handle net2 u s2 =
      (if \<not> fst (fst c2)
       then print (''  '' @ cross_mark @ '' '' @ fmt (snd (fst c2)))
              ((snd c2)\<lparr>failed_handles := failed_handles (snd c2) @ [u @ '' ('' @ fmt (snd (fst c2)) @ '')'']\<rparr>)
       else print (''  '' @ check_mark @ '' OK'') (snd c2))"
    unfolding verify_handle_def Let_def split_beta c2_def t_def ..
  show ?thesis
    unfolding v1 v2 f
    by (cases "fst (fst c2)") (simp_all only: if_True if_False not_True_eq_False not_False_eq_True
        same_run_print same_run_failed_handles q)
qed

lemma verify_handles_same_run:
  assumes "\<forall>k u. net1 (length (requests w1) + k) u = net2 (length (requests w2) + k) u"
    and "same_run w1 w2 s1 s2"
  shows "same_run w1 w2 (verify_handles net1 a s1) (verify_handles net2 a s2)"
  using assms(2)
proof (induction a arbitrary: s1 s2)
  case Nil
  then show ?case by simp
next
  case (Cons x rest)
  obtain username details where x: "x = (username, details)" by (cases x)
  from verify_handle_same_run [OF assms(1) Cons.prems]
  have "same_run w1 w2 (verify_handle net1 username s1) (verify_handle net2 username s2)" .
  from Cons.IH [OF this] show ?case by (simp add: x)
qed

lemma verify_website_same_run:
  assumes h: "\<forall>k u. net1 (length (requests w1) + k) u = net2 (length (requests w2) + k) u"
    and sr: "same_run w1 w2 s1 s2"
  shows "same_run w1 w2 (verify_website net1 u url s1) (verify_website net2 u url s2)"
proof -
  define c1 where "c1 = check_url net1 url s1"
  define c2 where "c2 = check_url net2 url s2"
  have f: "fst c1 = fst c2" and q: "same_run w1 w2 (snd c1) (snd c2)"
    unfolding c1_def c2_def by (rule check_url_same_run [OF h sr])+
  have v1: "verify_website net1 u url s1 =
      (if \<not> fst (fst c1)
       then print (''  '' @ cross_mark @ '' Website URL: '' @ url @ '' ('' @ fmt (snd (fst c1)) @ '')'')
              ((snd c1)\<lparr>failed_urls := failed_urls (snd c1)
                 @ [u @ ''.website: '' @ url @ '' ('' @ fmt (snd (fst c1)) @ '')'']\<rparr>)
       else if truthy (snd (fst c1))
       then print (''  '' @ skip_mark @ '' Website URL '' @ fmt (snd (fst c1)) @ '': '' @ url) (snd c1)
       else print (''  '' @ check_mark @ '' Website URL OK: '' @ url) (snd c1))"
    unfolding verify_website_def Let_def split_beta c1_def ..
  have v2: "verify_website net2 u url s2 =
      (if \<not> fst (fst c2)
       then print (''  '' @ cross_mark @ '' Website URL: '' @ url @ '' ('' @ fmt (snd (fst c2)) @ '')'')
              ((snd c2)\<lparr>failed_urls := failed_urls (snd c2)
                 @ [u @ ''.website: '' @ url @ '' ('' @ fmt (snd (fst c2)) @ '')'']\<rparr>)
       else if truthy (snd (fst c2))
       then print (''  '' @ skip_mark @ '' Website URL '' @ fmt (snd (fst c2)) @ '': '' @ url) (snd c2)
       else print (''  '' @ check_mark @ '' Website URL OK: '' @ url) (snd c2))"
    unfolding verify_website_def Let_def split_beta c2_def ..
  show ?thesis
    unfolding v1 v2 f
    by (cases "fst (fst c2)"; cases "truthy (snd (fst c2))")
      (simp_all only: if_True if_False not_True_eq_False not_False_eq_True
        same_run_print same_run_failed_urls q)
qed

lemma verify_avatar_same_run:
  assumes h: "\<forall>k u. net1 (length (requests w1) + k) u = net2 (length (requests w2) + k) u"
    and sr: "same_run w1 w2 s1 s2"
  shows "same_run w1 w2 (verify_avatar net1 u url s1) (verify_avatar net2 u url s2)"
proof -
  define c1 where "c1 = check_url net1 url s1"
  define c2 where "c2 = check_url net2 url s2"
  have f: "fst c1 = fst c2" and q: "same_run w1 w2 (snd c1) (snd c2)"
    unfolding c1_def c2_def by (rule check_url_same_run [OF h sr])+
  have v1: "verify_avatar net1 u url s1 =
      (if \<not> fst (fst c1)
       then print (''  '' @ cross_mark @ '' Avatar URL: '' @ url @ '' ('' @ fmt (snd (fst c1)) @ '')'')
              ((snd c1)\<lparr>failed_urls := failed_urls (snd c1)
                 @ [u @ ''.avatar: '' @ url @ '' ('' @ fmt (snd (fst c1)) @ '')'']\<rparr>)
       else if truthy (snd (fst c1))
       then print (''  '' @ skip_mark @ '' Avatar URL '' @ fmt (snd (fst c1)) @ '': '' @ url) (snd c1)
       else print (''  '' @ check_mark @ '' Avatar URL OK: '' @ url) (snd c1))"
    unfolding verify_avatar_def Let_def split_beta c1_def ..
  have v2: "verify_avatar net2 u url s2 =
      (if \<not> fst (fst c2)
       then print (''  '' @ cross_mark @ '' Avatar URL: '' @ url @ '' ('' @ fmt (snd (fst c2)) @ '')'')
              ((snd c2)\<lparr>failed_urls := failed_urls (snd c2)
                 @ [u @ ''.avatar: '' @ url @ '' ('' @ fmt (snd (fst c2)) @ '')'']\<rparr>)
       else if truthy (snd (fst c2))
       then print (''  '' @ skip_mark @ '' Avatar URL '' @ fmt (snd (fst c2)) @ '': '' @ url) (snd c2)
       else print (''  '' @ check_mark @ '' Avatar URL OK: '' @ url) (snd c2))"
    unfolding verify_avatar_def Let_def split_beta c2_def ..
  show ?thesis
    unfolding v1 v2 f
    by (cases "fst (fst c2)"; cases "truthy (snd (fst c2))")
      (simp_all only: if_True if_False not_True_eq_False not_False_eq_True
        same_run_print same_run_failed_urls q)
qed

lemma verify_author_urls_same_run:
  assumes h: "\<forall>k u. net1 (length (requests w1) + k) u = net2 (length (requests w2) + k) u"
    and sr: "same_run w1 w2 s1 s2"
  shows "rel_sum (rel_prod (=) (same_run w1 w2)) (same_run w1 w2)
           (verify_author_urls net1 u d s1) (verify_author_urls net2 u d s2)"
proof (cases d)
  case Null
  then show ?thesis
    using sr by (simp add: verify_author_urls_def same_run_print)
next
  case (Details wo ao)
  define t where "t = ''Checking URLs for '' @ u @ ''...''"
  define a1 where "a1 = (case wo of None \<Rightarrow> print t s1 | Some url \<Rightarrow> verify_website net1 u url (print t s1))"
  define a2 where "a2 = (case wo of None \<Rightarrow> print t s2 | Some url \<Rightarrow> verify_website net2 u url (print t s2))"
  define b1 where "b1 = (case ao of None \<Rightarrow> a1 | Some url \<Rightarrow> verify_avatar net1 u url a1)"
  define b2 where "b2 = (case ao of None \<Rightarrow> a2 | Some url \<Rightarrow> verify_avatar net2 u url a2)"
  have p: "same_run w1 w2 (print t s1) (print t s2)"
    using sr by (rule same_run_print)
  have a: "same_run w1 w2 a1 a2"
    unfolding a1_def a2_def using p by (cases wo) (simp_all add: verify_website_same_run [OF h])
  have b: "same_run w1 w2 b1 b2"
    unfolding b1_def b2_def using a by (cases ao) (simp_all add: verify_avatar_same_run [OF h])
  have "verify_author_urls net1 u d s1 = Inr b1" and "verify_author_urls net2 u d s2 = Inr b2"
    unfolding verify_author_urls_def Let_def Details b1_def b2_def a1_def a2_def t_def by simp_all
  with b show ?thesis by simp
qed

lemma verify_urls_same_run:
  assumes h: "\<forall>k u. net1 (length (requests w1) + k) u = net2 (length (requests w2) + k) u"
    and sr: "same_run w1 w2 s1 s2"
  shows "rel_sum (rel_prod (=) (same_run w1 w2)) (same_run w1 w2)
           (verify_urls net1 a s1) (verify_urls net2 a s2)"
  using sr
proof (induction a arbitrary: s1 s2)
  case Nil
  then show ?case by simp
next
  case (Cons x rest)
  obtain username details where x: "x = (username, details)" by (cases x)
  have "rel_sum (rel_prod (=) (same_run w1 w2)) (same_run w1 w2)
          (verify_author_urls net1 username details s1) (verify_author_urls net2 username details s2)"
    by (rule verify_author_urls_same_run [OF h Cons.prems])
  then show ?case
    by (rule rel_sum.cases) (simp_all add: x Cons.IH)
qed

lemma verify_registry_authors_same_run:
  assumes sr: "same_run w1 w2 s1 s2"
  shows "same_run w1 w2 (verify_registry_authors a r s1) (verify_registry_authors a r s2)"
proof -
  have step: "same_run w1 w2 (verify_registry_author a x t1) (verify_registry_author a x t2)"
    if "same_run w1 w2 t1 t2" for x t1 t2
    using that
    by (cases "x \<notin> set (map fst a)")
      (simp_all only: verify_registry_author_def if_True if_False not_False_eq_True
        not_True_eq_False not_not same_run_print same_run_missing_authors)
  have loop: "same_run w1 w2 (fold (verify_registry_author a) xs t1) (fold (verify_registry_author a) xs t2)"
    if "same_run w1 w2 t1 t2" for xs t1 t2
    using that by (induction xs arbitrary: t1 t2) (simp_all add: step)
  show ?thesis
    unfolding verify_registry_authors_def Let_def
    by (intro loop same_run_print sr)
qed

lemma print_items_same_run:
  assumes "same_run w1 w2 s1 s2"
  shows "same_run w1 w2 (print_items xs s1) (print_items xs s2)"
  using assms unfolding print_items_def
  by (induction xs arbitrary: s1 s2) (simp_all add: same_run_print)

lemma report_results_same_run:
  assumes sr: "same_run w1 w2 s1 s2"
  shows "fst (report_results s1) = fst (report_results s2)"
    and "same_run w1 w2 (snd (report_results s1)) (snd (report_results s2))"
proof -
  have e: "failed_handles s1 = failed_handles s2" "failed_urls s1 = failed_urls s2"
    "missing_authors s1 = missing_authors s2"
    using sr by (simp_all add: same_run_def)
  show "fst (report_results s1) = fst (report_results s2)"
    by (simp add: fst_report_results e)
  show "same_run w1 w2 (snd (report_results s1)) (snd (report_results s2))"
    using sr by (simp add: report_results_def Let_def e same_run_print print_items_same_run)
qed

lemma same_run_observed:
  assumes "same_run w1 w2 s1 s2"
  shows "failed_handles s1 = failed_handles s2" and "failed_urls s1 = failed_urls s2"
    and "missing_authors s1 = missing_authors s2"
    and "drop (length (requests w1)) (requests s1) = drop (length (requests w2)) (requests s2)"
    and "drop (length (stdout w1)) (stdout s1) = drop (length (stdout w2)) (stdout s2)"
  using assms by (auto simp add: same_run_def)

text \<open>
  C8. Two runs on the same files, from any two worlds, such that the \<open>k\<close>-th request of
  the one is answered as the \<open>k\<close>-th request of the other, end alike: the same exit status
  or the same uncaught error, the same three failure lists, the same requests issued and
  the same lines printed.
\<close>

theorem main_deterministic:
  assumes "\<forall>k u. net1 (length (requests w1) + k) u = net2 (length (requests w2) + k) u"
  shows "observed w1 (main net1 authors registry w1) = observed w2 (main net2 authors registry w2)"
proof -
  define s01 :: state where "s01 = \<lparr>requests = requests w1, stdout = stdout w1,
                failed_handles = [], failed_urls = [], missing_authors = []\<rparr>"
  define s02 :: state where "s02 = \<lparr>requests = requests w2, stdout = stdout w2,
                failed_handles = [], failed_urls = [], missing_authors = []\<rparr>"
  define h1 where "h1 = ''=== Verifying GitHub Handles ==='' @ newline"
  define h2 where "h2 = newline @ ''=== Verifying Author URLs ==='' @ newline"
  define h3 where "h3 = newline @ ''=== Verifying Registry Authors ==='' @ newline"
  define u1 where "u1 = verify_urls net1 authors (print h2 (verify_handles net1 authors (print h1 s01)))"
  define u2 where "u2 = verify_urls net2 authors (print h2 (verify_handles net2 authors (print h1 s02)))"
  have m1: "main net1 authors registry w1 =
      (case u1 of Inl e \<Rightarrow> Inl e
       | Inr s2 \<Rightarrow> Inr (report_results (verify_registry_authors authors registry (print h3 s2))))"
    unfolding main_def Let_def s01_def h1_def h2_def h3_def u1_def ..
  have m2: "main net2 authors registry w2 =
      (case u2 of Inl e \<Rightarrow> Inl e
       | Inr s2 \<Rightarrow> Inr (report_results (verify_registry_authors authors registry (print h3 s2))))"
    unfolding main_def Let_def s02_def h1_def h2_def h3_def u2_def ..
  have "same_run w1 w2 s01 s02"
    by (simp add: same_run_def s01_def s02_def)
  then have "same_run w1 w2 (print h1 s01) (print h1 s02)"
    by (rule same_run_print)
  then have "same_run w1 w2 (verify_handles net1 authors (print h1 s01))
               (verify_handles net2 authors (print h1 s02))"
    by (rule verify_handles_same_run [OF assms])
  then have "same_run w1 w2 (print h2 (verify_handles net1 authors (print h1 s01)))
               (print h2 (verify_handles net2 authors (print h1 s02)))"
    by (rule same_run_print)
  then have "rel_sum (rel_prod (=) (same_run w1 w2)) (same_run w1 w2) u1 u2"
    unfolding u1_def u2_def by (rule verify_urls_same_run [OF assms])
  then show ?thesis
  proof (rule rel_sum.cases)
    fix a b
    assume u: "u1 = Inl a" "u2 = Inl b" and r: "rel_prod (=) (same_run w1 w2) a b"
    obtain e t1 where a: "a = (e, t1)" by (cases a)
    with r obtain t2 where b: "b = (e, t2)" and sr: "same_run w1 w2 t1 t2"
      by (cases b) simp
    show ?thesis
      unfolding m1 m2 u a b observed_def using same_run_observed [OF sr] by simp
  next
    fix t1 t2
    assume u: "u1 = Inr t1" "u2 = Inr t2" and sr: "same_run w1 w2 t1 t2"
    let ?r1 = "report_results (verify_registry_authors authors registry (print h3 t1))"
    let ?r2 = "report_results (verify_registry_authors authors registry (print h3 t2))"
    have "same_run w1 w2 (verify_registry_authors authors registry (print h3 t1))
            (verify_registry_authors authors registry (print h3 t2))"
      by (intro verify_registry_authors_same_run same_run_print sr)
    then have f: "fst ?r1 = fst ?r2" and q: "same_run w1 w2 (snd ?r1) (snd ?r2)"
      by (rule report_results_same_run)+
    have "observed w1 (Inr ?r1) = observed w2 (Inr ?r2)"
      unfolding observed_def using f same_run_observed [OF q] by (simp add: split_beta)
    then show ?thesis
      unfolding m1 m2 u by simp
  qed
qed

theorem main_deterministic_witness:
  "observed \<lparr>requests = [], stdout = []\<rparr>
     (main (\<lambda>n u. if u = ''https://dead.example/x'' then Response 404 else Response 200)
        [(''alice'', Details None (Some ''https://dead.example/x''))]
        [RegistryEntry (Some [''bob''])]
        \<lparr>requests = [], stdout = []\<rparr>)
   = observed \<lparr>requests = [''https://github.com/alice'', ''https://dead.example/x''],
               stdout = [''earlier output'']\<rparr>
     (main (\<lambda>n u. if u = ''https://dead.example/x'' then Response 404 else Response 200)
        [(''alice'', Details None (Some ''https://dead.example/x''))]
        [RegistryEntry (Some [''bob''])]
        \<lparr>requests = [''https://github.com/alice'', ''https://dead.example/x''],
         stdout = [''earlier output'']\<rparr>)
   \<and> fst (observed \<lparr>requests = [], stdout = []\<rparr>
     (main (\<lambda>n u. if u = ''https://dead.example/x'' then Response 404 else Response 200)
        [(''alice'', Details None (Some ''https://dead.example/x''))]
        [RegistryEntry (Some [''bob''])]
        \<lparr>requests = [], stdout = []\<rparr>)) = Inr 1"
proof -
  have "fst (observed \<lparr>requests = [], stdout = []\<rparr>
     (main (\<lambda>n u. if u = ''https://dead.example/x'' then Response 404 else Response 200)
        [(''alice'', Details None (Some ''https://dead.example/x''))]
        [RegistryEntry (Some [''bob''])]
        \<lparr>requests = [], stdout = []\<rparr>)) = Inr 1"
    by code_simp
  then show ?thesis
    using main_deterministic [of
        "\<lambda>n u. if u = ''https://dead.example/x'' then Response 404 else Response 200"
        "\<lparr>requests = [], stdout = []\<rparr>"
        "\<lambda>n u. if u = ''https://dead.example/x'' then Response 404 else Response 200"
        "\<lparr>requests = [''https://github.com/alice'', ''https://dead.example/x''],
         stdout = [''earlier output'']\<rparr>"
        "[(''alice'', Details None (Some ''https://dead.example/x''))]"
        "[RegistryEntry (Some [''bob''])]"]
    by simp
qed

end
